theory Spec2Isabelle
  imports Main "HOL-Library.Multiset"
begin

section \<open>Data model of the detection engine\<close>

text \<open>
  A log record is a Python dict read only through \<^verbatim>\<open>r.get(key)\<close>; every field the
  engine looks at is an optional string, \<open>None\<close> standing for a missing key (or a stored
  Python \<^verbatim>\<open>None\<close>, which \<^verbatim>\<open>get\<close> does not tell apart). The auxiliary payload
  \<^verbatim>\<open>raw\<close> is never read by the engine and is carried along as opaque text.
\<close>

record log_record =
  log_type :: "string option"
  log_user :: "string option"
  log_origin :: "string option"
  log_ip :: "string option"
  log_timestamp :: "string option"
  log_raw :: "string option"

text \<open>
  An alert is the dict built by a rule. \<open>a_user\<close>, \<open>a_reason\<close> and \<open>a_severity\<close> are
  keys of every alert; the rule-specific keys are \<open>None\<close> when the rule does not set
  them. The key \<^verbatim>\<open>record\<close> is set by every rule: \<open>a_record\<close> is \<open>Some r\<close> when its value
  is the log record \<open>r\<close> and \<open>None\<close> when its value is Python's \<^verbatim>\<open>None\<close>.
\<close>

record alert =
  a_user :: string
  a_reason :: string
  a_severity :: string
  a_origin :: "string option"
  a_failed_count :: "int option"
  a_hour :: "int option"
  a_logins_in_window :: "int option"
  a_window_seconds :: "int option"
  a_record :: "log_record option"

text \<open>
  The module-level dictionaries \<^verbatim>\<open>_seen_origins = defaultdict(set)\<close> and
  \<^verbatim>\<open>_failed_logins = defaultdict(int)\<close>: a default dictionary is a total function whose
  value at a key never written is the default (the empty set, zero).
\<close>

record detection_state =
  seen_origins :: "string \<Rightarrow> string set"
  failed_logins :: "string \<Rightarrow> int"

definition fresh_state :: detection_state where
  "fresh_state = \<lparr>seen_origins = (\<lambda>_. {}), failed_logins = (\<lambda>_. 0)\<rparr>"

section \<open>Rule 4.1: login from a new origin\<close>

definition new_origin_alert :: "string \<Rightarrow> string \<Rightarrow> log_record \<Rightarrow> alert" where
  "new_origin_alert user origin r =
     \<lparr>a_user = user, a_reason = ''new_origin'', a_severity = ''medium'',
      a_origin = Some origin, a_failed_count = None, a_hour = None,
      a_logins_in_window = None, a_window_seconds = None, a_record = Some r\<rparr>"

text \<open>
  One iteration of the loop of \<^verbatim>\<open>rule_login_from_new_origin\<close>: the alerts it appends
  and the state it leaves. \<^verbatim>\<open>not user\<close> holds for a missing user and for the empty
  string alike.
\<close>

definition new_origin_step :: "detection_state \<Rightarrow> log_record \<Rightarrow> alert list \<times> detection_state" where
  "new_origin_step st r =
     (if log_type r \<noteq> Some ''login'' then ([], st)
      else case (log_user r, log_origin r) of
        (Some user, Some origin) \<Rightarrow>
          if user = [] \<or> origin = [] then ([], st)
          else if origin \<notin> seen_origins st user then
            ([new_origin_alert user origin r],
             st\<lparr>seen_origins := (seen_origins st)(user := insert origin (seen_origins st user))\<rparr>)
          else ([], st)
      | _ \<Rightarrow> ([], st))"

fun rule_login_from_new_origin ::
  "detection_state \<Rightarrow> log_record list \<Rightarrow> alert list \<times> detection_state" where
  "rule_login_from_new_origin st [] = ([], st)"
| "rule_login_from_new_origin st (r # logs) =
     (let (a, st1) = new_origin_step st r;
          (as, st2) = rule_login_from_new_origin st1 logs
      in (a @ as, st2))"

section \<open>Rule 4.2: failed-login threshold\<close>

definition failed_login_alert :: "string \<Rightarrow> int \<Rightarrow> log_record \<Rightarrow> alert" where
  "failed_login_alert user c r =
     \<lparr>a_user = user, a_reason = ''failed_login_threshold'', a_severity = ''high'',
      a_origin = None, a_failed_count = Some c, a_hour = None,
      a_logins_in_window = None, a_window_seconds = None, a_record = Some r\<rparr>"

definition failed_login_step ::
  "int \<Rightarrow> detection_state \<Rightarrow> log_record \<Rightarrow> alert list \<times> detection_state" where
  "failed_login_step threshold st r =
     (if log_type r \<noteq> Some ''failed_login'' then ([], st)
      else case log_user r of
        None \<Rightarrow> ([], st)
      | Some user \<Rightarrow>
          if user = [] then ([], st)
          else
            let c = failed_logins st user + 1;
                st1 = st\<lparr>failed_logins := (failed_logins st)(user := c)\<rparr>
            in if c \<ge> threshold then ([failed_login_alert user c r], st1) else ([], st1))"

fun rule_failed_login_threshold ::
  "detection_state \<Rightarrow> log_record list \<Rightarrow> int \<Rightarrow> alert list \<times> detection_state" where
  "rule_failed_login_threshold st [] threshold = ([], st)"
| "rule_failed_login_threshold st (r # logs) threshold =
     (let (a, st1) = failed_login_step threshold st r;
          (as, st2) = rule_failed_login_threshold st1 logs threshold
      in (a @ as, st2))"

text \<open>
  Several calls of the rule, one per batch, the state left by a call being the state
  the next one starts from; the alerts of the calls are collected in call order.
\<close>

fun failed_login_calls ::
  "detection_state \<Rightarrow> log_record list list \<Rightarrow> int \<Rightarrow> alert list \<times> detection_state" where
  "failed_login_calls st [] threshold = ([], st)"
| "failed_login_calls st (b # bs) threshold =
     (let (a, st1) = rule_failed_login_threshold st b threshold;
          (as, st2) = failed_login_calls st1 bs threshold
      in (a @ as, st2))"

text \<open>The failed-login records of a batch that bear the user \<open>u\<close>.\<close>

definition failed_logins_of :: "string \<Rightarrow> log_record list \<Rightarrow> log_record list" where
  "failed_logins_of u logs =
     filter (\<lambda>r. log_type r = Some ''failed_login'' \<and> log_user r = Some u) logs"

section \<open>Parsed timestamps\<close>

text \<open>
  The value of \<^verbatim>\<open>datetime.fromisoformat\<close>: the calendar fields of a
  \<^verbatim>\<open>datetime\<close> object and its \<^verbatim>\<open>tzinfo\<close>, which is absent (a naive datetime) or a
  fixed offset from UTC, kept in microseconds (an aware datetime).
\<close>

record datetime =
  dt_year :: int
  dt_month :: int
  dt_day :: int
  dt_hour :: int
  dt_minute :: int
  dt_second :: int
  dt_microsecond :: int
  dt_utcoffset :: "int option"

datatype py_error = TypeError

definition aware :: "datetime \<Rightarrow> bool" where
  "aware d = (dt_utcoffset d \<noteq> None)"

definition is_leap :: "int \<Rightarrow> bool" where
  "is_leap y = (y mod 4 = 0 \<and> (y mod 100 \<noteq> 0 \<or> y mod 400 = 0))"

definition days_in_month :: "int \<Rightarrow> int \<Rightarrow> int" where
  "days_in_month y m =
     (if m = 2 then (if is_leap y then 29 else 28)
      else if m = 4 \<or> m = 6 \<or> m = 9 \<or> m = 11 then 30 else 31)"

definition days_before_year :: "int \<Rightarrow> int" where
  "days_before_year y =
     (let p = y - 1 in p * 365 + p div 4 - p div 100 + p div 400)"

definition days_before_month :: "int \<Rightarrow> int \<Rightarrow> int" where
  "days_before_month y m = sum_list (map (days_in_month y) [1..m - 1])"

definition ordinal :: "datetime \<Rightarrow> int" where
  "ordinal d = days_before_year (dt_year d) + days_before_month (dt_year d) (dt_month d)
               + dt_day d"

text \<open>
  The position of a datetime on the time line, in microseconds since the start of day 0
  of the proleptic Gregorian calendar: of the wall clock for a naive datetime, of UTC
  (the offset subtracted) for an aware one. Python orders two naive datetimes by their
  fields and two aware ones by their UTC instants, and subtracts them likewise; for the
  field values a datetime object can hold (a date of the calendar, an hour below 24
  and so on) both are the order and the difference of \<open>dt_micros\<close>.
\<close>

definition dt_micros :: "datetime \<Rightarrow> int" where
  "dt_micros d =
     (((ordinal d * 24 + dt_hour d) * 60 + dt_minute d) * 60 + dt_second d) * 1000000
     + dt_microsecond d
     - (case dt_utcoffset d of None \<Rightarrow> 0 | Some off \<Rightarrow> off)"

text \<open>
  \<^verbatim>\<open>times.sort()\<close> on a list of datetimes. Comparing a naive with an aware datetime
  raises \<^verbatim>\<open>TypeError\<close>, and no sort of two or more elements can avoid comparing across
  the two kinds when both occur; otherwise the sort is Python's stable sort.
\<close>

definition sort_datetimes :: "datetime list \<Rightarrow> py_error + datetime list" where
  "sort_datetimes tms =
     (if list_ex aware tms \<and> list_ex (\<lambda>d. \<not> aware d) tms then Inl TypeError
      else Inr (sort_key dt_micros tms))"

text \<open>
  \<^verbatim>\<open>b - a\<close> for two datetimes, in microseconds; it raises \<^verbatim>\<open>TypeError\<close> when exactly
  one of them is aware.
\<close>

definition dt_sub :: "datetime \<Rightarrow> datetime \<Rightarrow> py_error + int" where
  "dt_sub b a =
     (if aware a \<noteq> aware b then Inl TypeError else Inr (dt_micros b - dt_micros a))"

text \<open>
  \<^verbatim>\<open>timestamp_str.replace("Z", "+00:00")\<close>: every occurrence of the letter is replaced.
\<close>

definition replace_Z :: "string \<Rightarrow> string" where
  "replace_Z s = concat (map (\<lambda>c. if c = CHR ''Z'' then ''+00:00'' else [c]) s)"

text \<open>
  The rules take the library's parser as the parameter \<open>parse\<close>: the datetime for a
  string it accepts, \<open>None\<close> where it raises \<^verbatim>\<open>ValueError\<close> (which both callers catch
  with \<^verbatim>\<open>except Exception\<close>).
\<close>

type_synonym parser = "string \<Rightarrow> datetime option"

section \<open>Rule 4.3: login at an unusual time\<close>

definition unusual_time_alert :: "string \<Rightarrow> int \<Rightarrow> log_record \<Rightarrow> alert" where
  "unusual_time_alert user hour r =
     \<lparr>a_user = user, a_reason = ''unusual_login_time'', a_severity = ''low'',
      a_origin = None, a_failed_count = None, a_hour = Some hour,
      a_logins_in_window = None, a_window_seconds = None, a_record = Some r\<rparr>"

fun rule_login_unusual_time :: "parser \<Rightarrow> log_record list \<Rightarrow> int \<times> int \<Rightarrow> alert list" where
  "rule_login_unusual_time parse [] outside_hours = []"
| "rule_login_unusual_time parse (r # logs) outside_hours =
     (if log_type r \<noteq> Some ''login'' then rule_login_unusual_time parse logs outside_hours
      else case (log_user r, log_timestamp r) of
        (Some user, Some timestamp_str) \<Rightarrow>
          if user = [] \<or> timestamp_str = [] then rule_login_unusual_time parse logs outside_hours
          else (case parse (replace_Z timestamp_str) of
                  None \<Rightarrow> rule_login_unusual_time parse logs outside_hours
                | Some ts \<Rightarrow>
                    let hour = dt_hour ts in
                    if hour \<ge> fst outside_hours \<or> hour < snd outside_hours
                    then unusual_time_alert user hour r
                           # rule_login_unusual_time parse logs outside_hours
                    else rule_login_unusual_time parse logs outside_hours)
      | _ \<Rightarrow> rule_login_unusual_time parse logs outside_hours)"

section \<open>Rule 4.4: rapid multiple logins\<close>

text \<open>
  The alert of the rapid-logins rule. Its \<^verbatim>\<open>record\<close> is
  \<^verbatim>\<open>times[i].__dict__ if hasattr(times[i], '__dict__') else None\<close>; a datetime object has
  no \<^verbatim>\<open>__dict__\<close>, so the value is always \<^verbatim>\<open>None\<close>.
\<close>

definition rapid_logins_alert :: "string \<Rightarrow> int \<Rightarrow> int \<Rightarrow> alert" where
  "rapid_logins_alert user n window_seconds =
     \<lparr>a_user = user, a_reason = ''rapid_logins'', a_severity = ''medium'',
      a_origin = None, a_failed_count = None, a_hour = None,
      a_logins_in_window = Some n, a_window_seconds = Some window_seconds, a_record = None\<rparr>"

text \<open>
  \<^verbatim>\<open>user_login_times[user].append(ts)\<close> on the local \<^verbatim>\<open>defaultdict(list)\<close>. The
  dictionary is iterated later, in the order its keys were first inserted, so it is
  an association list in that order.
\<close>

fun append_time ::
  "string \<Rightarrow> datetime \<Rightarrow> (string \<times> datetime list) list \<Rightarrow> (string \<times> datetime list) list" where
  "append_time user ts [] = [(user, [ts])]"
| "append_time user ts ((k, tms) # m) =
     (if k = user then (k, tms @ [ts]) # m else (k, tms) # append_time user ts m)"

text \<open>The first loop of the rule, with the dictionary built so far as accumulator.\<close>

fun collect_login_times ::
  "parser \<Rightarrow> (string \<times> datetime list) list \<Rightarrow> log_record list \<Rightarrow> (string \<times> datetime list) list" where
  "collect_login_times parse m [] = m"
| "collect_login_times parse m (r # logs) =
     (if log_type r \<noteq> Some ''login'' then collect_login_times parse m logs
      else case (log_user r, log_timestamp r) of
        (Some user, Some timestamp_str) \<Rightarrow>
          if user = [] \<or> timestamp_str = [] then collect_login_times parse m logs
          else (case parse (replace_Z timestamp_str) of
                  None \<Rightarrow> collect_login_times parse m logs
                | Some ts \<Rightarrow> collect_login_times parse (append_time user ts m) logs)
      | _ \<Rightarrow> collect_login_times parse m logs)"

text \<open>
  The inner loop over adjacent pairs of the sorted times, from index \<open>i\<close> on, with its
  \<^verbatim>\<open>break\<close> after the first alert; \<open>n\<close> is \<^verbatim>\<open>len(times)\<close>. \<^verbatim>\<open>total_seconds()\<close> is
  the difference in microseconds divided by \<open>10\<^sup>6\<close>, as a double; the test
  \<^verbatim>\<open>0 < delta < window_seconds\<close> is taken on the exact quotient, with which the double
  agrees for every integer window below \<open>2\<^sup>3\<^sup>3\<close> seconds.
\<close>

fun scan_pairs :: "string \<Rightarrow> int \<Rightarrow> int \<Rightarrow> datetime list \<Rightarrow> py_error + alert list" where
  "scan_pairs user window_seconds n (t0 # t1 # tms) =
     (case dt_sub t1 t0 of
        Inl e \<Rightarrow> Inl e
      | Inr delta \<Rightarrow>
          if 0 < delta \<and> delta < window_seconds * 1000000
          then Inr [rapid_logins_alert user n window_seconds]
          else scan_pairs user window_seconds n (t1 # tms))"
| "scan_pairs user window_seconds n tms = Inr []"

text \<open>The second loop, over the items of the dictionary.\<close>

fun rapid_users :: "int \<Rightarrow> (string \<times> datetime list) list \<Rightarrow> py_error + alert list" where
  "rapid_users window_seconds [] = Inr []"
| "rapid_users window_seconds ((user, tms) # m) =
     (case sort_datetimes tms of
        Inl e \<Rightarrow> Inl e
      | Inr sorted_times \<Rightarrow>
          (case scan_pairs user window_seconds (int (length sorted_times)) sorted_times of
             Inl e \<Rightarrow> Inl e
           | Inr a \<Rightarrow>
               (case rapid_users window_seconds m of
                  Inl e \<Rightarrow> Inl e
                | Inr as \<Rightarrow> Inr (a @ as))))"

definition rule_rapid_multiple_logins ::
  "parser \<Rightarrow> log_record list \<Rightarrow> int \<Rightarrow> py_error + alert list" where
  "rule_rapid_multiple_logins parse logs window_seconds =
     rapid_users window_seconds (collect_login_times parse [] logs)"

section \<open>The aggregator\<close>

text \<open>
  The sort key \<^verbatim>\<open>severity_order.get(x.get("severity", "low"), 3)\<close>; every alert has
  the key \<^verbatim>\<open>severity\<close>, so the default of the inner \<^verbatim>\<open>get\<close> is never used.
\<close>

definition severity_order :: "string \<Rightarrow> nat" where
  "severity_order s =
     (if s = ''high'' then 0 else if s = ''medium'' then 1 else if s = ''low'' then 2 else 3)"

text \<open>
  \<^verbatim>\<open>detect_all\<close> returns the sorted alerts, or the exception that left it, together
  with the detection state as the call leaves it: the first two rules have updated the
  module-level dictionaries by the time the fourth can raise.
\<close>

definition detect_all ::
  "parser \<Rightarrow> detection_state \<Rightarrow> log_record list \<Rightarrow> (py_error + alert list) \<times> detection_state" where
  "detect_all parse st logs =
     (let (a1, st1) = rule_login_from_new_origin st logs;
          (a2, st2) = rule_failed_login_threshold st1 logs 5;
          a3 = rule_login_unusual_time parse logs (22, 6)
      in case rule_rapid_multiple_logins parse logs 60 of
           Inl e \<Rightarrow> (Inl e, st2)
         | Inr a4 \<Rightarrow> (Inr (sort_key (\<lambda>x. severity_order (a_severity x)) (a1 @ a2 @ a3 @ a4)), st2))"

section \<open>A parser for the concrete runs\<close>

text \<open>
  \<^verbatim>\<open>datetime.fromisoformat\<close> on the strings
  \<^verbatim>\<open>YYYY-MM-DD\<close> and \<^verbatim>\<open>YYYY-MM-DD(T| )HH:MM:SS[.fff[fff]][(+|-)HH:MM]\<close>, which every
  release of the library reads alike; any other string is rejected here. The theorems
  about the rules are stated for an arbitrary parser; this one is the parser of the
  concrete runs.
\<close>

definition digit_of :: "char \<Rightarrow> int option" where
  "digit_of c =
     (let n = (of_char c :: int) in if 48 \<le> n \<and> n \<le> 57 then Some (n - 48) else None)"

definition number :: "string \<Rightarrow> int option" where
  "number s =
     (if s = [] then None
      else fold (\<lambda>c acc. case (acc, digit_of c) of
                            (Some n, Some d) \<Rightarrow> Some (10 * n + d)
                          | _ \<Rightarrow> None) s (Some 0))"

definition parse_date :: "string \<Rightarrow> (int \<times> int \<times> int) option" where
  "parse_date s =
     (if length s \<noteq> 10 \<or> s ! 4 \<noteq> CHR ''-'' \<or> s ! 7 \<noteq> CHR ''-'' then None
      else case (number (take 4 s), number (take 2 (drop 5 s)), number (drop 8 s)) of
        (Some y, Some m, Some d) \<Rightarrow>
          if 1 \<le> y \<and> 1 \<le> m \<and> m \<le> 12 \<and> 1 \<le> d \<and> d \<le> days_in_month y m
          then Some (y, m, d) else None
      | _ \<Rightarrow> None)"

definition parse_fraction :: "string \<Rightarrow> int option" where
  "parse_fraction s =
     (if s = [] then Some 0
      else if hd s \<noteq> CHR ''.'' then None
      else if length s = 4 then map_option (\<lambda>n. n * 1000) (number (tl s))
      else if length s = 7 then number (tl s)
      else None)"

definition parse_time :: "string \<Rightarrow> (int \<times> int \<times> int \<times> int) option" where
  "parse_time s =
     (if length s < 8 \<or> s ! 2 \<noteq> CHR '':'' \<or> s ! 5 \<noteq> CHR '':'' then None
      else case (number (take 2 s), number (take 2 (drop 3 s)), number (take 2 (drop 6 s)),
                 parse_fraction (drop 8 s)) of
        (Some h, Some mi, Some sec, Some us) \<Rightarrow>
          if h \<le> 23 \<and> mi \<le> 59 \<and> sec \<le> 59 then Some (h, mi, sec, us) else None
      | _ \<Rightarrow> None)"

text \<open>The offset of a zone suffix, in microseconds; the empty suffix gives a naive datetime.\<close>

definition parse_tz :: "string \<Rightarrow> int option option" where
  "parse_tz s =
     (if s = [] then Some None
      else if length s \<noteq> 6 \<or> s ! 3 \<noteq> CHR '':'' then None
      else case (number (take 2 (tl s)), number (drop 4 s)) of
        (Some h, Some mi) \<Rightarrow>
          if h \<le> 23 \<and> mi \<le> 59
          then Some (Some ((if hd s = CHR ''-'' then - 1 else 1)
                            * (h * 3600 + mi * 60) * 1000000))
          else None
      | _ \<Rightarrow> None)"

definition is_sign :: "char \<Rightarrow> bool" where
  "is_sign c = (c = CHR ''+'' \<or> c = CHR ''-'')"

definition fromisoformat :: parser where
  "fromisoformat s =
     (case parse_date (take 10 s) of
        None \<Rightarrow> None
      | Some (y, m, d) \<Rightarrow>
          (case drop 10 s of
             [] \<Rightarrow> Some \<lparr>dt_year = y, dt_month = m, dt_day = d, dt_hour = 0, dt_minute = 0,
                         dt_second = 0, dt_microsecond = 0, dt_utcoffset = None\<rparr>
           | sep # tstr \<Rightarrow>
               if sep \<noteq> CHR ''T'' \<and> sep \<noteq> CHR '' '' then None
               else (case (parse_time (takeWhile (\<lambda>c. \<not> is_sign c) tstr),
                           parse_tz (dropWhile (\<lambda>c. \<not> is_sign c) tstr)) of
                       (Some (h, mi, sec, us), Some tz) \<Rightarrow>
                         Some \<lparr>dt_year = y, dt_month = m, dt_day = d, dt_hour = h,
                               dt_minute = mi, dt_second = sec, dt_microsecond = us,
                               dt_utcoffset = tz\<rparr>
                     | _ \<Rightarrow> None)))"

section \<open>Records of the concrete runs\<close>

definition login :: "string \<Rightarrow> string \<Rightarrow> string \<Rightarrow> log_record" where
  "login user origin timestamp =
     \<lparr>log_type = Some ''login'', log_user = Some user, log_origin = Some origin,
      log_ip = None, log_timestamp = Some timestamp, log_raw = None\<rparr>"

definition bob_failed :: log_record where
  "bob_failed = \<lparr>log_type = Some ''failed_login'', log_user = Some ''bob'',
     log_origin = None, log_ip = None, log_timestamp = None, log_raw = None\<rparr>"

definition six_failed_logins :: "log_record list list" where
  "six_failed_logins =
     [[bob_failed, bob_failed, bob_failed], [], [bob_failed, bob_failed], [bob_failed]]"


text \<open>A login record carrying the user \<open>u\<close> and the origin \<open>orig\<close>.\<close>

definition login_from :: "string \<Rightarrow> string \<Rightarrow> log_record \<Rightarrow> bool" where
  "login_from u orig r =
     (log_type r = Some ''login'' \<and> log_user r = Some u \<and> log_origin r = Some orig)"


text \<open>
  What the two time-based rules read of a record: the user and the parsed timestamp of
  a login record that has both (non-empty) and whose timestamp the parser accepts.
\<close>

definition timed_login :: "parser \<Rightarrow> log_record \<Rightarrow> (string \<times> datetime) option" where
  "timed_login parse r =
     (if log_type r \<noteq> Some ''login'' then None
      else case (log_user r, log_timestamp r) of
        (Some user, Some timestamp_str) \<Rightarrow>
          if user = [] \<or> timestamp_str = [] then None
          else map_option (Pair user) (parse (replace_Z timestamp_str))
      | _ \<Rightarrow> None)"

text \<open>
  One batch for all four rules: eve logs in at \<open>T\<close>, \<open>T + 10 s\<close> and \<open>T + 200 s\<close>, at
  night, from two origins, and bob fails to log in five times.
\<close>

definition eve1 :: log_record where
  "eve1 = login ''eve'' ''US'' ''2024-05-01T23:00:00Z''"

definition eve2 :: log_record where
  "eve2 = login ''eve'' ''UK'' ''2024-05-01T23:00:10Z''"

definition eve3 :: log_record where
  "eve3 = login ''eve'' ''US'' ''2024-05-01T23:03:20Z''"

definition eve_batch :: "log_record list" where
  "eve_batch = [eve1, eve2, eve3, bob_failed, bob_failed, bob_failed, bob_failed, bob_failed]"

definition eve_alerts :: "alert list" where
  "eve_alerts =
     [failed_login_alert ''bob'' 5 bob_failed,
      new_origin_alert ''eve'' ''US'' eve1,
      new_origin_alert ''eve'' ''UK'' eve2,
      rapid_logins_alert ''eve'' 3 60,
      unusual_time_alert ''eve'' 23 eve1,
      unusual_time_alert ''eve'' 23 eve2,
      unusual_time_alert ''eve'' 23 eve3]"

text \<open>
  The valid timestamps of a user in a batch, in batch order; a list of datetimes that
  has both a naive and an aware one; and a list with an adjacent pair more than 0 and
  less than \<open>w\<close> seconds apart.
\<close>

definition user_times :: "parser \<Rightarrow> string \<Rightarrow> log_record list \<Rightarrow> datetime list" where
  "user_times parse u logs =
     map snd (filter (\<lambda>p. fst p = u) (List.map_filter (timed_login parse) logs))"

definition mixed :: "datetime list \<Rightarrow> bool" where
  "mixed tms = (list_ex aware tms \<and> list_ex (\<lambda>d. \<not> aware d) tms)"

definition rapid_pair :: "int \<Rightarrow> datetime list \<Rightarrow> bool" where
  "rapid_pair w tms =
     list_ex (\<lambda>(a, b). 0 < dt_micros b - dt_micros a \<and> dt_micros b - dt_micros a < w * 1000000)
       (zip tms (tl tms))"

text \<open>The times stored for a user in the dictionary of the rapid-logins rule.\<close>

definition times_in :: "(string \<times> datetime list) list \<Rightarrow> string \<Rightarrow> datetime list" where
  "times_in m u = (case map_of m u of None \<Rightarrow> [] | Some tms \<Rightarrow> tms)"

text \<open>
  Two logins of tom at the same instant, written with different zone suffixes, and two
  logins of carol thirty seconds apart, the first timestamp without a zone suffix and
  the second with one.
\<close>

definition tom_batch :: "log_record list" where
  "tom_batch =
     [login ''tom'' ''US'' ''2024-05-01T10:00:00Z'',
      login ''tom'' ''US'' ''2024-05-01T12:00:00+02:00'']"

definition carol_batch :: "log_record list" where
  "carol_batch =
     [login ''carol'' ''US'' ''2024-05-01T10:00:00'',
      login ''carol'' ''US'' ''2024-05-01T10:00:30Z'']"

text \<open>
  Several calls of the aggregator, one per batch: the result of each call, alerts or
  exception, and the state after the last. An exception ends its call only; the state
  the call leaves is the state the next call starts from.
\<close>

fun detect_calls ::
  "parser \<Rightarrow> detection_state \<Rightarrow> log_record list list \<Rightarrow>
   (py_error + alert list) list \<times> detection_state" where
  "detect_calls parse st [] = ([], st)"
| "detect_calls parse st (b # bs) =
     (let (r, st1) = detect_all parse st b;
          (rs, st2) = detect_calls parse st1 bs
      in (r # rs, st2))"

text \<open>The alerts handed to the caller by a sequence of calls, in call order.\<close>

definition returned :: "(py_error + alert list) list \<Rightarrow> alert list" where
  "returned rs = concat (map (\<lambda>r. case r of Inl e \<Rightarrow> [] | Inr a \<Rightarrow> a) rs)"

text \<open>
  Two calls: five failed logins of bob together with the two logins of carol, then one
  more failed login of bob. And one batch: the logins of eve together with those of
  carol.
\<close>

definition bob_carol_batches :: "log_record list list" where
  "bob_carol_batches =
     [[bob_failed, bob_failed, bob_failed, bob_failed, bob_failed] @ carol_batch, [bob_failed]]"

definition eve_carol_batch :: "log_record list" where
  "eve_carol_batch = [eve1, eve2, eve3] @ carol_batch"

text \<open>Single logins of dave at 23h, 3h and 12h UTC, and one whose timestamp does not parse.\<close>

definition dave23 :: log_record where
  "dave23 = login ''dave'' ''US'' ''2024-05-01T23:15:00Z''"

definition dave3 :: log_record where
  "dave3 = login ''dave'' ''US'' ''2024-05-02T03:30:00Z''"

definition dave12 :: log_record where
  "dave12 = login ''dave'' ''US'' ''2024-05-02T12:00:00Z''"

definition dave_bad :: log_record where
  "dave_bad = login ''dave'' ''US'' ''yesterday''"

section \<open>The failed-login counter\<close>

lemma failed_login_step_other:
  "snd (failed_login_step t st r) = st' \<Longrightarrow> \<not> (log_type r = Some ''failed_login'' \<and> log_user r = Some u) \<Longrightarrow>
   failed_logins st' u = failed_logins st u"
  by (auto simp: failed_login_step_def Let_def split: option.splits if_splits)

lemma failed_login_step_other_alerts:
  "\<not> (log_type r = Some ''failed_login'' \<and> log_user r = Some u) \<Longrightarrow>
   filter (\<lambda>a. a_user a = u) (fst (failed_login_step t st r)) = []"
  by (auto simp: failed_login_step_def failed_login_alert_def Let_def split: option.splits if_splits)

lemma failed_login_step_hit:
  "log_type r = Some ''failed_login'' \<Longrightarrow> log_user r = Some u \<Longrightarrow> u \<noteq> [] \<Longrightarrow>
   failed_login_step t st r =
     ((if t \<le> failed_logins st u + 1 then [failed_login_alert u (failed_logins st u + 1) r] else []),
      st\<lparr>failed_logins := (failed_logins st)(u := failed_logins st u + 1)\<rparr>)"
  by (auto simp: failed_login_step_def Let_def)

lemma failed_rule_Cons:
  "fst (rule_failed_login_threshold st (r # logs) t) =
     fst (failed_login_step t st r) @
     fst (rule_failed_login_threshold (snd (failed_login_step t st r)) logs t)"
  "snd (rule_failed_login_threshold st (r # logs) t) =
     snd (rule_failed_login_threshold (snd (failed_login_step t st r)) logs t)"
  by (simp_all add: case_prod_beta)

lemma failed_rule_user:
  assumes "u \<noteq> []"
  shows "filter (\<lambda>a. a_user a = u) (fst (rule_failed_login_threshold st logs t)) =
     map (\<lambda>(c, r). failed_login_alert u c r)
       (filter (\<lambda>(c, r). t \<le> c)
          (zip [failed_logins st u + 1 .. failed_logins st u + int (length (failed_logins_of u logs))]
               (failed_logins_of u logs)))"
proof (induction logs arbitrary: st)
  case Nil
  show ?case by (simp add: failed_logins_of_def)
next
  case (Cons r logs)
  show ?case
  proof (cases "log_type r = Some ''failed_login'' \<and> log_user r = Some u")
    case True
    let ?k = "failed_logins st u"
    let ?st1 = "st\<lparr>failed_logins := (failed_logins st)(u := ?k + 1)\<rparr>"
    have step: "failed_login_step t st r =
        ((if t \<le> ?k + 1 then [failed_login_alert u (?k + 1) r] else []), ?st1)"
      using True assms by (simp add: failed_login_step_hit)
    have recs: "failed_logins_of u (r # logs) = r # failed_logins_of u logs"
      using True by (simp add: failed_logins_of_def)
    have k1: "failed_logins ?st1 u = ?k + 1" by simp
    have up: "[?k + 1 .. ?k + int (length (r # failed_logins_of u logs))] =
        (?k + 1) # [?k + 1 + 1 .. ?k + 1 + int (length (failed_logins_of u logs))]"
      by (subst upto_rec1) (simp_all add: add.assoc)
    have usr: "a_user (failed_login_alert u (?k + 1) r) = u"
      by (simp add: failed_login_alert_def)
    show ?thesis
      unfolding recs up failed_rule_Cons step fst_conv snd_conv filter_append
      using Cons.IH [of ?st1] unfolding k1
      by (simp add: usr)
  next
    case False
    have "failed_logins (snd (failed_login_step t st r)) u = failed_logins st u"
      using failed_login_step_other [OF refl False] .
    moreover have "filter (\<lambda>a. a_user a = u) (fst (failed_login_step t st r)) = []"
      using failed_login_step_other_alerts [OF False] .
    moreover have "failed_logins_of u (r # logs) = failed_logins_of u logs"
      using False by (simp add: failed_logins_of_def)
    ultimately show ?thesis
      using Cons.IH [of "snd (failed_login_step t st r)"]
      by (simp add: failed_rule_Cons del: rule_failed_login_threshold.simps)
  qed
qed

lemma failed_rule_append:
  "rule_failed_login_threshold st (xs @ ys) t =
     (let (a, st1) = rule_failed_login_threshold st xs t;
          (b, st2) = rule_failed_login_threshold st1 ys t
      in (a @ b, st2))"
  by (induction xs arbitrary: st) (simp_all split: prod.splits)

lemma failed_login_calls_concat:
  "failed_login_calls st bs t = rule_failed_login_threshold st (concat bs) t"
  by (induction bs arbitrary: st) (simp_all add: failed_rule_append split: prod.splits)

lemma filter_ge_upto: "filter (\<lambda>c. t \<le> c) [i..j] = [max i t..j]"
proof (induction i j rule: upto.induct)
  case (1 i j)
  show ?case
  proof (cases "i \<le> j")
    case True
    then show ?thesis
      using 1 by (subst upto_rec1 [of i j], simp) (auto simp: max_def upto_rec1 [of i j])
  next
    case False
    then show ?thesis by (simp add: max_def)
  qed
qed

lemma map_fst_filter_zip:
  "length xs = length ys \<Longrightarrow>
   map fst (filter (\<lambda>(c, r). P c) (zip xs ys)) = filter P xs"
  by (induction xs ys rule: list_induct2) auto

lemma failed_step_depends:
  "failed_logins st = failed_logins st' \<Longrightarrow>
   fst (failed_login_step t st r) = fst (failed_login_step t st' r) \<and>
   failed_logins (snd (failed_login_step t st r)) = failed_logins (snd (failed_login_step t st' r))"
  by (auto simp: failed_login_step_def Let_def split: option.splits)

lemma failed_rule_depends:
  "failed_logins st = failed_logins st' \<Longrightarrow>
   fst (rule_failed_login_threshold st b t) = fst (rule_failed_login_threshold st' b t) \<and>
   failed_logins (snd (rule_failed_login_threshold st b t)) =
     failed_logins (snd (rule_failed_login_threshold st' b t))"
proof (induction b arbitrary: st st')
  case Nil
  then show ?case by simp
next
  case (Cons r b)
  note s = failed_step_depends [OF Cons.prems, of t r]
  from Cons.IH [of "snd (failed_login_step t st r)" "snd (failed_login_step t st' r)"] s
  show ?case by (simp add: case_prod_beta)
qed

section \<open>The seen origins\<close>










section \<open>The state a call leaves\<close>

lemma snd_detect_all:
  "snd (detect_all parse st logs) =
     snd (rule_failed_login_threshold (snd (rule_login_from_new_origin st logs)) logs 5)"
  by (simp add: detect_all_def case_prod_beta Let_def split: sum.splits)

lemma new_origin_step_state:
  "failed_logins (snd (new_origin_step st r)) = failed_logins st"
  "seen_origins (snd (new_origin_step st r)) u =
     seen_origins st u \<union> {orig. u \<noteq> [] \<and> orig \<noteq> [] \<and> login_from u orig r}"
  by (auto simp: new_origin_step_def login_from_def split: option.splits if_splits)

lemma new_origin_rule_state:
  "failed_logins (snd (rule_login_from_new_origin st logs)) = failed_logins st"
  "seen_origins (snd (rule_login_from_new_origin st logs)) u =
     seen_origins st u \<union> {orig. u \<noteq> [] \<and> orig \<noteq> [] \<and> (\<exists>r \<in> set logs. login_from u orig r)}"
proof (induction logs arbitrary: st)
  case Nil
  { case 1 show ?case by simp }
  { case 2 show ?case by simp }
next
  case (Cons r logs)
  { case 1 show ?case
      using Cons.IH(1) [of "snd (new_origin_step st r)"]
      by (simp add: case_prod_beta new_origin_step_state(1)) }
  { case 2 show ?case
      using Cons.IH(2) [of "snd (new_origin_step st r)"]
      by (auto simp: case_prod_beta new_origin_step_state(2)) }
qed

lemma failed_login_step_state:
  "seen_origins (snd (failed_login_step t st r)) = seen_origins st"
  "failed_logins (snd (failed_login_step t st r)) u =
     failed_logins st u +
       (if u \<noteq> [] \<and> log_type r = Some ''failed_login'' \<and> log_user r = Some u then 1 else 0)"
  by (auto simp: failed_login_step_def Let_def split: option.splits if_splits)

lemma failed_rule_state:
  "seen_origins (snd (rule_failed_login_threshold st logs t)) = seen_origins st"
  "failed_logins (snd (rule_failed_login_threshold st logs t)) u =
     failed_logins st u + (if u = [] then 0 else int (length (failed_logins_of u logs)))"
proof (induction logs arbitrary: st)
  case Nil
  { case 1 show ?case by simp }
  { case 2 show ?case by (simp add: failed_logins_of_def) }
next
  case (Cons r logs)
  { case 1 show ?case
      using Cons.IH(1) [of "snd (failed_login_step t st r)"]
      by (simp add: case_prod_beta failed_login_step_state(1)) }
  { case 2 show ?case
      using Cons.IH(2) [of "snd (failed_login_step t st r)"]
      by (simp add: case_prod_beta failed_login_step_state(2) failed_logins_of_def) }
qed

section \<open>Grouping and scanning of the rapid-logins rule\<close>

lemma scan_pairs_uniform:
  "\<not> mixed ts \<Longrightarrow>
   scan_pairs u w n ts = Inr (if rapid_pair w ts then [rapid_logins_alert u n w] else [])"
proof (induction u w n ts rule: scan_pairs.induct)
  case (1 u w n t0 t1 ts)
  from "1.prems" have aw: "aware t0 = aware t1" and rest: "\<not> mixed (t1 # ts)"
    by (auto simp: mixed_def)
  show ?case
  proof (cases "0 < dt_micros t1 - dt_micros t0 \<and> dt_micros t1 - dt_micros t0 < w * 1000000")
    case True
    then show ?thesis using aw by (simp add: dt_sub_def rapid_pair_def)
  next
    case False
    have "scan_pairs u w n (t0 # t1 # ts) = scan_pairs u w n (t1 # ts)"
      using False aw by (auto simp: dt_sub_def)
    also have "\<dots> = Inr (if rapid_pair w (t1 # ts) then [rapid_logins_alert u n w] else [])"
      using "1.IH" [of "dt_micros t1 - dt_micros t0"] False aw rest by (auto simp: dt_sub_def)
    also have "rapid_pair w (t1 # ts) = rapid_pair w (t0 # t1 # ts)"
      using False by (auto simp: rapid_pair_def)
    finally show ?thesis .
  qed
qed (simp_all add: rapid_pair_def)

lemma mixed_sort: "mixed (sort_key f ts) = mixed ts"
  by (simp add: mixed_def list_ex_iff)

lemma sort_datetimes_cases:
  "sort_datetimes ts = (if mixed ts then Inl TypeError else Inr (sort_key dt_micros ts))"
  by (simp add: sort_datetimes_def mixed_def)

lemma rapid_users_result:
  "rapid_users w m =
     (if \<exists>p \<in> set m. mixed (snd p) then Inl TypeError
      else Inr (concat (map (\<lambda>(u, ts).
              if rapid_pair w (sort_key dt_micros ts)
              then [rapid_logins_alert u (int (length ts)) w] else []) m)))"
proof (induction m)
  case Nil
  show ?case by simp
next
  case (Cons p m)
  obtain u ts where p: "p = (u, ts)" by (cases p)
  show ?case
  proof (cases "mixed ts")
    case True
    then show ?thesis by (simp add: p sort_datetimes_cases)
  next
    case False
    then have "\<not> mixed (sort_key dt_micros ts)" by (simp add: mixed_sort)
    note sp = scan_pairs_uniform [OF this, of u w "int (length ts)"]
    show ?thesis
      using False Cons.IH by (simp add: p sort_datetimes_cases sp)
  qed
qed

lemma times_in_append_time:
  "times_in (append_time u t m) v = (if v = u then times_in m u @ [t] else times_in m v)"
  by (induction m) (auto simp: times_in_def)

lemma times_in_Nil: "times_in [] v = []"
  by (simp add: times_in_def)

lemma map_fst_append_time:
  "map fst (append_time u t m) = (if u \<in> fst ` set m then map fst m else map fst m @ [u])"
  by (induction m) (force simp: image_iff)+

lemma distinct_append_time:
  "distinct (map fst m) \<Longrightarrow> distinct (map fst (append_time u t m))"
  by (simp add: map_fst_append_time)

lemma collect_login_times_props:
  "times_in (collect_login_times parse m logs) v = times_in m v @ user_times parse v logs"
  "distinct (map fst m) \<Longrightarrow> distinct (map fst (collect_login_times parse m logs))"
proof (induction logs arbitrary: m)
  case Nil
  { case 1 show ?case by (simp add: user_times_def map_filter_simps) }
  { case 2 then show ?case by simp }
next
  case (Cons r logs)
  { case 1
    show ?case
    proof (cases "timed_login parse r")
      case None
      then have "collect_login_times parse m (r # logs) = collect_login_times parse m logs"
        by (auto simp: timed_login_def split: option.splits if_splits)
      moreover have "user_times parse v (r # logs) = user_times parse v logs"
        using None by (simp add: user_times_def map_filter_simps)
      ultimately show ?thesis using Cons.IH(1) by (simp del: collect_login_times.simps)
    next
      case (Some p)
      obtain u t where p: "p = (u, t)" by (cases p)
      from Some have c: "collect_login_times parse m (r # logs) =
          collect_login_times parse (append_time u t m) logs"
        by (auto simp: timed_login_def p split: option.splits if_splits)
      have "user_times parse v (r # logs) = (if v = u then t # user_times parse v logs
          else user_times parse v logs)"
        using Some by (simp add: user_times_def map_filter_simps p)
      then show ?thesis
        using Cons.IH(1) [of "append_time u t m"]
        by (simp add: c times_in_append_time del: collect_login_times.simps)
    qed }
  { case 2
    show ?case
    proof (cases "timed_login parse r")
      case None
      then have "collect_login_times parse m (r # logs) = collect_login_times parse m logs"
        by (auto simp: timed_login_def split: option.splits if_splits)
      then show ?thesis using Cons.IH(2) [OF 2] by (simp del: collect_login_times.simps)
    next
      case (Some p)
      obtain u t where p: "p = (u, t)" by (cases p)
      from Some have c: "collect_login_times parse m (r # logs) =
          collect_login_times parse (append_time u t m) logs"
        by (auto simp: timed_login_def p split: option.splits if_splits)
      show ?thesis
        using Cons.IH(2) [OF distinct_append_time [OF 2]]
        by (simp add: c del: collect_login_times.simps)
    qed }
qed

lemma filter_user_concat:
  assumes "distinct (map fst m)"
    and "\<And>u ts a. a \<in> set (g u ts) \<Longrightarrow> a_user a = u"
    and "\<And>u. g u [] = []"
  shows "filter (\<lambda>a. a_user a = v) (concat (map (\<lambda>(u, ts). g u ts) m)) = g v (times_in m v)"
  using assms(1)
proof (induction m)
  case Nil
  show ?case by (simp add: times_in_def assms(3))
next
  case (Cons p m)
  obtain k ts where p: "p = (k, ts)" by (cases p)
  from Cons.prems have d: "distinct (map fst m)" and k: "k \<notin> fst ` set m" by (auto simp: p)
  show ?case
  proof (cases "k = v")
    case True
    have "map_of m v = None" using k True by (simp add: map_of_eq_None_iff)
    then have "filter (\<lambda>a. a_user a = v) (concat (map (\<lambda>(u, ts). g u ts) m)) = []"
      using Cons.IH [OF d] by (simp add: times_in_def assms(3))
    moreover have "filter (\<lambda>a. a_user a = v) (g k ts) = g k ts"
      using assms(2) [of _ k ts] True by (simp add: filter_id_conv)
    ultimately show ?thesis using True by (simp add: p times_in_def)
  next
    case False
    have "filter (\<lambda>a. a_user a = v) (g k ts) = []"
      using assms(2) [of _ k ts] False by (auto simp: filter_empty_conv)
    then show ?thesis using False Cons.IH [OF d] by (simp add: p times_in_def)
  qed
qed

lemma mixed_entry_iff:
  assumes "distinct (map fst m)"
  shows "(\<exists>p \<in> set m. mixed (snd p)) \<longleftrightarrow> (\<exists>v. mixed (times_in m v))"
proof
  assume "\<exists>p \<in> set m. mixed (snd p)"
  then obtain u ts where "(u, ts) \<in> set m" "mixed ts" by auto
  then have "mixed (times_in m u)" using assms by (simp add: times_in_def)
  then show "\<exists>v. mixed (times_in m v)" ..
next
  assume "\<exists>v. mixed (times_in m v)"
  then obtain v where v: "mixed (times_in m v)" ..
  then obtain ts where "map_of m v = Some ts" "mixed ts"
    by (cases "map_of m v") (auto simp: times_in_def mixed_def)
  then show "\<exists>p \<in> set m. mixed (snd p)" by (force dest: map_of_SomeD)
qed

lemma rapid_rule_result:
  "rule_rapid_multiple_logins parse logs w =
     (if \<exists>v. mixed (user_times parse v logs) then Inl TypeError
      else Inr (concat (map (\<lambda>(u, ts).
              if rapid_pair w (sort_key dt_micros ts)
              then [rapid_logins_alert u (int (length ts)) w] else [])
            (collect_login_times parse [] logs))))"
proof -
  have d: "distinct (map fst (collect_login_times parse [] logs))"
    by (rule collect_login_times_props(2)) simp
  have t: "times_in (collect_login_times parse [] logs) v = user_times parse v logs" for v
    by (simp add: collect_login_times_props(1) times_in_Nil)
  show ?thesis
    unfolding rule_rapid_multiple_logins_def rapid_users_result mixed_entry_iff [OF d] t ..
qed

lemma rapid_rule_user:
  "filter (\<lambda>a. a_user a = v)
     (concat (map (\<lambda>(u, ts).
              if rapid_pair w (sort_key dt_micros ts)
              then [rapid_logins_alert u (int (length ts)) w] else [])
            (collect_login_times parse [] logs))) =
   (if rapid_pair w (sort_key dt_micros (user_times parse v logs))
    then [rapid_logins_alert v (int (length (user_times parse v logs))) w] else [])"
proof -
  have d: "distinct (map fst (collect_login_times parse [] logs))"
    by (rule collect_login_times_props(2)) simp
  have t: "times_in (collect_login_times parse [] logs) v = user_times parse v logs"
    by (simp add: collect_login_times_props(1) times_in_Nil)
  show ?thesis
    by (subst filter_user_concat [OF d])
       (auto simp: t rapid_pair_def rapid_logins_alert_def split: if_splits)
qed

section \<open>The alerts of each rule\<close>

lemma new_origin_step_kinds:
  "a \<in> set (fst (new_origin_step st r)) \<Longrightarrow> a_reason a = ''new_origin'' \<and> a_severity a = ''medium''"
  by (auto simp: new_origin_step_def new_origin_alert_def split: option.splits if_splits)

lemma new_origin_rule_kinds:
  "a \<in> set (fst (rule_login_from_new_origin st logs)) \<Longrightarrow>
   a_reason a = ''new_origin'' \<and> a_severity a = ''medium''"
proof (induction logs arbitrary: st)
  case Nil
  then show ?case by simp
next
  case (Cons r logs)
  then show ?case
    using new_origin_step_kinds [of a st r]
    by (auto simp: case_prod_beta)
qed

lemma failed_login_step_kinds:
  "a \<in> set (fst (failed_login_step t st r)) \<Longrightarrow>
   a_reason a = ''failed_login_threshold'' \<and> a_severity a = ''high''"
  by (auto simp: failed_login_step_def failed_login_alert_def Let_def split: option.splits if_splits)

lemma failed_rule_kinds:
  "a \<in> set (fst (rule_failed_login_threshold st logs t)) \<Longrightarrow>
   a_reason a = ''failed_login_threshold'' \<and> a_severity a = ''high''"
proof (induction logs arbitrary: st)
  case Nil
  then show ?case by simp
next
  case (Cons r logs)
  then show ?case
    using failed_login_step_kinds [of a t st r]
    by (auto simp: case_prod_beta)
qed

lemma unusual_time_kinds:
  "a \<in> set (rule_login_unusual_time parse logs oh) \<Longrightarrow>
   a_reason a = ''unusual_login_time'' \<and> a_severity a = ''low''"
  by (induction logs)
     (auto simp: unusual_time_alert_def Let_def split: option.splits if_splits)

lemma scan_pairs_kinds:
  "scan_pairs u w n ts = Inr as \<Longrightarrow> a \<in> set as \<Longrightarrow>
   a = rapid_logins_alert u n w"
  by (induction u w n ts rule: scan_pairs.induct)
     (auto split: sum.splits if_splits)

lemma rapid_users_kinds:
  "rapid_users w m = Inr as \<Longrightarrow> a \<in> set as \<Longrightarrow>
   a_reason a = ''rapid_logins'' \<and> a_severity a = ''medium'' \<and> a_record a = None"
proof (induction m arbitrary: as)
  case Nil
  then show ?case by simp
next
  case (Cons p m)
  obtain u ts where p: "p = (u, ts)" by (cases p)
  from Cons.prems(1) obtain s a1 as1 where
    s: "sort_datetimes ts = Inr s" and
    a1: "scan_pairs u w (int (length s)) s = Inr a1" and
    as1: "rapid_users w m = Inr as1" and
    as: "as = a1 @ as1"
    by (auto simp: p split: sum.splits)
  from Cons.prems(2) as consider "a \<in> set a1" | "a \<in> set as1" by auto
  then show ?case
  proof cases
    case 1
    then show ?thesis
      using scan_pairs_kinds [OF a1 1] by (simp add: rapid_logins_alert_def)
  next
    case 2
    then show ?thesis using Cons.IH [OF as1] by simp
  qed
qed




lemma unusual_time_append:
  "rule_login_unusual_time parse (xs @ ys) oh =
     rule_login_unusual_time parse xs oh @ rule_login_unusual_time parse ys oh"
  by (induction xs) (auto simp: Let_def split: option.splits)

section \<open>The aggregator, call by call\<close>

text \<open>
  The aggregator raises exactly when the rapid-logins rule does, and that is when some
  user of the batch has both a naive and an aware valid timestamp. When it returns, the
  alerts of one rule are found in its result in the order the rule emitted them.
\<close>

lemma detect_all_Inr:
  assumes "fst (detect_all parse st logs) = Inr out"
  obtains a4 where "rule_rapid_multiple_logins parse logs 60 = Inr a4"
    and "out = sort_key (\<lambda>x. severity_order (a_severity x))
           (fst (rule_login_from_new_origin st logs) @
            fst (rule_failed_login_threshold (snd (rule_login_from_new_origin st logs)) logs 5) @
            rule_login_unusual_time parse logs (22, 6) @ a4)"
  using assms
  by (auto simp: detect_all_def case_prod_beta Let_def split: sum.splits)

lemma detect_all_raises_iff:
  "fst (detect_all parse st logs) = Inl TypeError \<longleftrightarrow> (\<exists>v. mixed (user_times parse v logs))"
  by (simp add: detect_all_def case_prod_beta Let_def rapid_rule_result split: sum.splits)

lemma filter_sort_key_same_key:
  assumes "\<And>x. x \<in> set xs \<Longrightarrow> P x \<Longrightarrow> f x = k"
  shows "filter P (sort_key f xs) = filter P xs"
proof -
  have "filter P (sort_key f xs) = filter P (filter (\<lambda>y. f y = k) (sort_key f xs))"
    using assms by (auto intro!: filter_cong)
  also have "\<dots> = filter P (filter (\<lambda>y. f y = k) xs)"
    by (simp only: sort_key_stable)
  also have "\<dots> = filter P xs"
    using assms by (auto intro!: filter_cong)
  finally show ?thesis .
qed

lemma detect_all_failed_alerts:
  assumes "fst (detect_all parse st b) = Inr out"
  shows "filter (\<lambda>a. a_reason a = ''failed_login_threshold'' \<and> a_user a = u) out =
         filter (\<lambda>a. a_user a = u)
           (fst (rule_failed_login_threshold (snd (rule_login_from_new_origin st b)) b 5))"
proof -
  let ?P = "\<lambda>a. a_reason a = ''failed_login_threshold'' \<and> a_user a = u"
  let ?a1 = "fst (rule_login_from_new_origin st b)"
  let ?a2 = "fst (rule_failed_login_threshold (snd (rule_login_from_new_origin st b)) b 5)"
  let ?a3 = "rule_login_unusual_time parse b (22, 6)"
  from assms obtain a4 where
    r4: "rule_rapid_multiple_logins parse b 60 = Inr a4" and
    out: "out = sort_key (\<lambda>x. severity_order (a_severity x)) (?a1 @ ?a2 @ ?a3 @ a4)"
    by (rule detect_all_Inr)
  have k1: "\<not> ?P x" if "x \<in> set ?a1" for x
    using new_origin_rule_kinds [OF that] by simp
  have k2: "a_reason x = ''failed_login_threshold'' \<and> a_severity x = ''high''"
    if "x \<in> set ?a2" for x
    using failed_rule_kinds [OF that] by simp
  have k3: "\<not> ?P x" if "x \<in> set ?a3" for x
    using unusual_time_kinds [OF that] by simp
  have k4: "\<not> ?P x" if "x \<in> set a4" for x
    using rapid_users_kinds [OF r4 [unfolded rule_rapid_multiple_logins_def] that] by simp
  have "filter ?P out = filter ?P (?a1 @ ?a2 @ ?a3 @ a4)"
    unfolding out
  proof (rule filter_sort_key_same_key [where k = 0])
    fix x assume "x \<in> set (?a1 @ ?a2 @ ?a3 @ a4)" and "?P x"
    then have "x \<in> set ?a2" using k1 k3 k4 by auto
    then show "severity_order (a_severity x) = 0"
      using k2 by (simp add: severity_order_def)
  qed
  also have "\<dots> = filter ?P ?a2"
    using k1 k3 k4 by (simp add: filter_empty_conv)
  also have "\<dots> = filter (\<lambda>a. a_user a = u) ?a2"
    using k2 by (auto intro!: filter_cong)
  finally show ?thesis .
qed


lemma returned_Cons: "returned (Inr out # rs) = out @ returned rs"
  by (simp add: returned_def)

lemma detect_calls_head_returns:
  assumes "Inl TypeError \<notin> set (fst (detect_calls parse st (b # bs)))"
  shows "\<exists>out. fst (detect_all parse st b) = Inr out"
proof (cases "fst (detect_all parse st b)")
  case (Inl e)
  moreover have "e = TypeError" by (cases e) simp
  ultimately have False using assms by (simp add: case_prod_beta)
  then show ?thesis ..
next
  case (Inr out)
  then show ?thesis by blast
qed

lemma detect_calls_failed:
  assumes "failed_logins st = failed_logins st'"
    and "Inl TypeError \<notin> set (fst (detect_calls parse st bs))"
  shows "filter (\<lambda>a. a_reason a = ''failed_login_threshold'' \<and> a_user a = u)
           (returned (fst (detect_calls parse st bs))) =
         filter (\<lambda>a. a_user a = u) (fst (failed_login_calls st' bs 5))"
  using assms
proof (induction bs arbitrary: st st')
  case Nil
  show ?case by (simp add: returned_def)
next
  case (Cons b bs)
  let ?st1 = "snd (detect_all parse st b)"
  let ?st1' = "snd (rule_failed_login_threshold st' b 5)"
  obtain out where out: "fst (detect_all parse st b) = Inr out"
    using detect_calls_head_returns [OF Cons.prems(2)] ..
  have n: "failed_logins (snd (rule_login_from_new_origin st b)) = failed_logins st'"
    using Cons.prems(1) by (simp add: new_origin_rule_state(1))
  note d = failed_rule_depends [OF n, of b 5]
  have st: "failed_logins ?st1 = failed_logins ?st1'"
    using d by (simp add: snd_detect_all)
  have rest: "Inl TypeError \<notin> set (fst (detect_calls parse ?st1 bs))"
    using Cons.prems(2) by (simp add: case_prod_beta)
  have "fst (detect_calls parse st (b # bs)) = Inr out # fst (detect_calls parse ?st1 bs)"
    using out by (simp add: case_prod_beta)
  moreover have "fst (failed_login_calls st' (b # bs) 5) =
      fst (rule_failed_login_threshold st' b 5) @ fst (failed_login_calls ?st1' bs 5)"
    by (simp add: case_prod_beta)
  ultimately show ?case
    using Cons.IH [OF st rest] detect_all_failed_alerts [OF out, of u] d
    by (simp add: returned_Cons)
qed


section \<open>Concrete runs\<close>

text \<open>
  The runs of the rules and of the aggregator on the batches above, by evaluation.
\<close>

lemma eve_run: "fst (detect_all fromisoformat fresh_state eve_batch) = Inr eve_alerts"
  by code_simp

lemma eve_rapid:
  "rule_rapid_multiple_logins fromisoformat eve_batch 60 = Inr [rapid_logins_alert ''eve'' 3 60]"
  by code_simp

lemma eve_times:
  "List.map_filter (timed_login fromisoformat) eve_batch =
     [(''eve'', \<lparr>dt_year = 2024, dt_month = 5, dt_day = 1, dt_hour = 23, dt_minute = 0,
          dt_second = 0, dt_microsecond = 0, dt_utcoffset = Some 0\<rparr>),
      (''eve'', \<lparr>dt_year = 2024, dt_month = 5, dt_day = 1, dt_hour = 23, dt_minute = 0,
          dt_second = 10, dt_microsecond = 0, dt_utcoffset = Some 0\<rparr>),
      (''eve'', \<lparr>dt_year = 2024, dt_month = 5, dt_day = 1, dt_hour = 23, dt_minute = 3,
          dt_second = 20, dt_microsecond = 0, dt_utcoffset = Some 0\<rparr>)]"
  by code_simp

lemma tom_times:
  "List.map_filter (timed_login fromisoformat) tom_batch =
     [(''tom'', \<lparr>dt_year = 2024, dt_month = 5, dt_day = 1, dt_hour = 10, dt_minute = 0,
          dt_second = 0, dt_microsecond = 0, dt_utcoffset = Some 0\<rparr>),
      (''tom'', \<lparr>dt_year = 2024, dt_month = 5, dt_day = 1, dt_hour = 12, dt_minute = 0,
          dt_second = 0, dt_microsecond = 0, dt_utcoffset = Some 7200000000\<rparr>)]"
  by code_simp

lemma tom_rapid: "rule_rapid_multiple_logins fromisoformat tom_batch 60 = Inr []"
  by code_simp

lemma six_run:
  "fst (detect_calls fromisoformat fresh_state six_failed_logins) =
     [Inr [], Inr [], Inr [failed_login_alert ''bob'' 5 bob_failed],
      Inr [failed_login_alert ''bob'' 6 bob_failed]]"
  by code_simp


lemma dave23_time:
  "fromisoformat (replace_Z ''2024-05-01T23:15:00Z'') =
     Some \<lparr>dt_year = 2024, dt_month = 5, dt_day = 1, dt_hour = 23, dt_minute = 15,
           dt_second = 0, dt_microsecond = 0, dt_utcoffset = Some 0\<rparr>"
  by code_simp

lemma dave3_time:
  "fromisoformat (replace_Z ''2024-05-02T03:30:00Z'') =
     Some \<lparr>dt_year = 2024, dt_month = 5, dt_day = 2, dt_hour = 3, dt_minute = 30,
           dt_second = 0, dt_microsecond = 0, dt_utcoffset = Some 0\<rparr>"
  by code_simp

lemma dave12_time:
  "fromisoformat (replace_Z ''2024-05-02T12:00:00Z'') =
     Some \<lparr>dt_year = 2024, dt_month = 5, dt_day = 2, dt_hour = 12, dt_minute = 0,
           dt_second = 0, dt_microsecond = 0, dt_utcoffset = Some 0\<rparr>"
  by code_simp

lemma dave_bad_time: "fromisoformat (replace_Z ''yesterday'') = None"
  by code_simp

section \<open>General results on two rules\<close>

text \<open>The fields of the alerts the two general results are stated with.\<close>

lemma failed_login_alert_fields:
  "failed_login_alert u c r =
     \<lparr>a_user = u, a_reason = ''failed_login_threshold'', a_severity = ''high'',
      a_origin = None, a_failed_count = Some c, a_hour = None,
      a_logins_in_window = None, a_window_seconds = None, a_record = Some r\<rparr>"
  by (simp add: failed_login_alert_def)

lemma rapid_logins_alert_fields:
  "rapid_logins_alert u n w =
     \<lparr>a_user = u, a_reason = ''rapid_logins'', a_severity = ''medium'',
      a_origin = None, a_failed_count = None, a_hour = None,
      a_logins_in_window = Some n, a_window_seconds = Some w, a_record = None\<rparr>"
  by (simp add: rapid_logins_alert_def)

text \<open>
  The failed-login rule on its own, over any sequence of calls from a fresh state: the
  \<open>k\<close>-th failed-login record of a non-empty user gives an alert exactly when
  \<open>k \<ge> 5\<close>, with \<open>failed_count = k\<close>; the aggregator hands the same alerts to its
  caller over the calls when no call raises.
\<close>

lemma failed_login_rule_alerts:
  assumes "u \<noteq> []"
  shows "filter (\<lambda>a. a_user a = u) (fst (failed_login_calls fresh_state bs 5)) =
           map (\<lambda>(c, r). failed_login_alert u c r)
             (filter (\<lambda>(c, r). 5 \<le> c)
                (zip [1 .. int (length (failed_logins_of u (concat bs)))]
                     (failed_logins_of u (concat bs))))
       \<and> map a_failed_count (filter (\<lambda>a. a_user a = u) (fst (failed_login_calls fresh_state bs 5))) =
           map Some [5 .. int (length (failed_logins_of u (concat bs)))]
       \<and> int (length (filter (\<lambda>a. a_user a = u) (fst (failed_login_calls fresh_state bs 5)))) =
           max 0 (int (length (failed_logins_of u (concat bs))) - 5 + 1)
       \<and> (Inl TypeError \<notin> set (fst (detect_calls parse fresh_state bs)) \<longrightarrow>
            filter (\<lambda>a. a_reason a = ''failed_login_threshold'' \<and> a_user a = u)
              (returned (fst (detect_calls parse fresh_state bs))) =
            filter (\<lambda>a. a_user a = u) (fst (failed_login_calls fresh_state bs 5)))"
proof -
  let ?recs = "failed_logins_of u (concat bs)"
  let ?n = "int (length ?recs)"
  let ?out = "filter (\<lambda>a. a_user a = u) (fst (failed_login_calls fresh_state bs 5))"
  let ?sel = "filter (\<lambda>(c, r). 5 \<le> c) (zip [1 .. ?n] ?recs)"
  have A: "?out = map (\<lambda>(c, r). failed_login_alert u c r) ?sel"
    using failed_rule_user [OF assms, of fresh_state "concat bs" 5]
    by (simp add: failed_login_calls_concat fresh_state_def)
  have cnt: "map a_failed_count (map (\<lambda>(c, r). failed_login_alert u c r) ?sel) = map Some (map fst ?sel)"
    by (simp add: failed_login_alert_def case_prod_beta)
  have "map fst ?sel = filter (\<lambda>c. 5 \<le> c) [1 .. ?n]"
    by (rule map_fst_filter_zip) simp
  then have sel: "map fst ?sel = [5 .. ?n]"
    by (simp add: filter_ge_upto)
  have B: "map a_failed_count ?out = map Some [5 .. ?n]"
    unfolding A cnt sel ..
  have "length ?out = length (map a_failed_count ?out)" by simp
  also have "\<dots> = length [5 .. ?n]" unfolding B by simp
  finally have C: "int (length ?out) = max 0 (?n - 5 + 1)" by simp
  have D: "Inl TypeError \<notin> set (fst (detect_calls parse fresh_state bs)) \<longrightarrow>
            filter (\<lambda>a. a_reason a = ''failed_login_threshold'' \<and> a_user a = u)
              (returned (fst (detect_calls parse fresh_state bs))) = ?out"
    using detect_calls_failed [OF refl, of parse fresh_state bs u] by blast
  from A B C D show ?thesis by blast
qed

lemma failed_login_rule_alerts_example:
  "''bob'' \<noteq> [] \<and>
   Inl TypeError \<notin> set (fst (detect_calls fromisoformat fresh_state six_failed_logins)) \<and>
   map a_failed_count (filter (\<lambda>a. a_user a = ''bob'')
     (fst (failed_login_calls fresh_state six_failed_logins 5))) = [Some 5, Some 6] \<and>
   filter (\<lambda>a. a_reason a = ''failed_login_threshold'' \<and> a_user a = ''bob'')
     (returned (fst (detect_calls fromisoformat fresh_state six_failed_logins))) =
   filter (\<lambda>a. a_user a = ''bob'') (fst (failed_login_calls fresh_state six_failed_logins 5))"
proof -
  have h: "''bob'' \<noteq> []" by simp
  have r: "Inl TypeError \<notin> set (fst (detect_calls fromisoformat fresh_state six_failed_logins))"
    by (simp add: six_run)
  have n: "int (length (failed_logins_of ''bob'' (concat six_failed_logins))) = 6"
    by (simp add: six_failed_logins_def failed_logins_of_def bob_failed_def)
  note t = failed_login_rule_alerts [OF h, of six_failed_logins fromisoformat]
  have "map a_failed_count (filter (\<lambda>a. a_user a = ''bob'')
     (fst (failed_login_calls fresh_state six_failed_logins 5))) = map Some [5 .. 6]"
    using t unfolding n by blast
  also have "\<dots> = [Some 5, Some 6]" by simp
  finally have c: "map a_failed_count (filter (\<lambda>a. a_user a = ''bob'')
     (fst (failed_login_calls fresh_state six_failed_logins 5))) = [Some 5, Some 6]" .
  have d: "filter (\<lambda>a. a_reason a = ''failed_login_threshold'' \<and> a_user a = ''bob'')
     (returned (fst (detect_calls fromisoformat fresh_state six_failed_logins))) =
   filter (\<lambda>a. a_user a = ''bob'') (fst (failed_login_calls fresh_state six_failed_logins 5))"
    using t r by blast
  from h r c d show ?thesis by (intro conjI)
qed

text \<open>
  The rapid-logins rule on a batch in which no user has both naive and aware
  timestamps, for a window below \<open>2\<^sup>3\<^sup>3\<close> seconds (where the exact comparison of the
  model is the comparison of the doubles): it returns, and a user has at most one alert,
  present exactly when the user's timestamps, sorted ascending, have an adjacent pair
  more than 0 and less than \<open>w\<close> seconds apart.
\<close>

lemma rapid_rule_per_user:
  assumes "\<forall>v. \<not> mixed (user_times parse v logs)" and "w < 2 ^ 33"
  shows "\<exists>alerts. rule_rapid_multiple_logins parse logs w = Inr alerts \<and>
           (\<forall>u. filter (\<lambda>a. a_user a = u) alerts =
                 (if rapid_pair w (sort_key dt_micros (user_times parse u logs))
                  then [rapid_logins_alert u (int (length (user_times parse u logs))) w]
                  else []) \<and>
                length (filter (\<lambda>a. a_user a = u) alerts) \<le> 1)"
proof -
  let ?alerts = "concat (map (\<lambda>(u, ts).
              if rapid_pair w (sort_key dt_micros ts)
              then [rapid_logins_alert u (int (length ts)) w] else [])
            (collect_login_times parse [] logs))"
  have r: "rule_rapid_multiple_logins parse logs w = Inr ?alerts"
    using assms by (simp add: rapid_rule_result)
  have "filter (\<lambda>a. a_user a = u) ?alerts =
          (if rapid_pair w (sort_key dt_micros (user_times parse u logs))
           then [rapid_logins_alert u (int (length (user_times parse u logs))) w]
           else []) \<and>
        length (filter (\<lambda>a. a_user a = u) ?alerts) \<le> 1" for u
    unfolding rapid_rule_user by simp
  with r show ?thesis by blast
qed

lemma rapid_rule_per_user_example:
  "(\<forall>v. \<not> mixed (user_times fromisoformat v eve_batch)) \<and>
   (\<forall>v. \<not> mixed (user_times fromisoformat v tom_batch)) \<and>
   rule_rapid_multiple_logins fromisoformat eve_batch 60 = Inr [rapid_logins_alert ''eve'' 3 60] \<and>
   rapid_pair 60 (sort_key dt_micros (user_times fromisoformat ''eve'' eve_batch)) \<and>
   int (length (user_times fromisoformat ''eve'' eve_batch)) = 3 \<and>
   rule_rapid_multiple_logins fromisoformat tom_batch 60 = Inr [] \<and>
   \<not> rapid_pair 60 (sort_key dt_micros (user_times fromisoformat ''tom'' tom_batch))"
proof -
  have e: "\<forall>v. \<not> mixed (user_times fromisoformat v eve_batch)"
    by (simp add: user_times_def eve_times mixed_def aware_def)
  have t: "\<forall>v. \<not> mixed (user_times fromisoformat v tom_batch)"
    by (simp add: user_times_def tom_times mixed_def aware_def)
  have w60: "(60::int) < 2 ^ 33" by simp
  from rapid_rule_per_user [OF e w60]
  obtain al where al: "rule_rapid_multiple_logins fromisoformat eve_batch 60 = Inr al"
    and alu: "filter (\<lambda>a. a_user a = ''eve'') al =
       (if rapid_pair 60 (sort_key dt_micros (user_times fromisoformat ''eve'' eve_batch))
        then [rapid_logins_alert ''eve'' (int (length (user_times fromisoformat ''eve'' eve_batch))) 60]
        else [])"
    by blast
  from al eve_rapid have "al = [rapid_logins_alert ''eve'' 3 60]" by simp
  then have "filter (\<lambda>a. a_user a = ''eve'') al = [rapid_logins_alert ''eve'' 3 60]"
    by (simp add: rapid_logins_alert_def)
  with alu have e2: "rapid_pair 60 (sort_key dt_micros (user_times fromisoformat ''eve'' eve_batch))"
    and e3: "int (length (user_times fromisoformat ''eve'' eve_batch)) = 3"
    by (simp_all add: rapid_logins_alert_def split: if_splits)
  from rapid_rule_per_user [OF t w60]
  obtain bl where bl: "rule_rapid_multiple_logins fromisoformat tom_batch 60 = Inr bl"
    and blu: "filter (\<lambda>a. a_user a = ''tom'') bl =
       (if rapid_pair 60 (sort_key dt_micros (user_times fromisoformat ''tom'' tom_batch))
        then [rapid_logins_alert ''tom'' (int (length (user_times fromisoformat ''tom'' tom_batch))) 60]
        else [])"
    by blast
  from bl tom_rapid have "bl = []" by simp
  with blu have t2: "\<not> rapid_pair 60 (sort_key dt_micros (user_times fromisoformat ''tom'' tom_batch))"
    by (simp split: if_splits)
  from e t eve_rapid e2 e3 tom_rapid t2 show ?thesis by (intro conjI)
qed

section \<open>The claims\<close>

text \<open>
  C1. The count of alerts over calls of the aggregator does not hold: in the two calls
  below bob has six failed logins, so the rule on its own emits the alerts of counts
  5 and 6; but the first call also carries carol's two logins, on which
  \<^verbatim>\<open>times.sort()\<close> of the rapid-logins rule raises \<^verbatim>\<open>TypeError\<close> after the counter
  has reached 5, and the alert of count 5 is never returned. The caller gets one
  alert, of count 6, where the specification counts \<open>max 0 (6 - 5 + 1) = 2\<close>. Over
  calls none of which raises the count holds (\<open>failed_login_rule_alerts\<close>).
\<close>

theorem failed_login_alert_lost:
  "fst (detect_calls fromisoformat fresh_state bob_carol_batches) =
     [Inl TypeError,
      Inr [\<lparr>a_user = ''bob'', a_reason = ''failed_login_threshold'', a_severity = ''high'',
            a_origin = None, a_failed_count = Some 6, a_hour = None,
            a_logins_in_window = None, a_window_seconds = None,
            a_record = Some bob_failed\<rparr>]] \<and>
   int (length (failed_logins_of ''bob'' (concat bob_carol_batches))) = 6 \<and>
   int (length (filter (\<lambda>a. a_reason a = ''failed_login_threshold'' \<and> a_user a = ''bob'')
          (returned (fst (detect_calls fromisoformat fresh_state bob_carol_batches))))) = 1 \<and>
   map a_failed_count
     (filter (\<lambda>a. a_user a = ''bob'') (fst (failed_login_calls fresh_state bob_carol_batches 5))) =
     [Some 5, Some 6]"
  by code_simp

text \<open>
  C2. When the rapid-logins rule returns its alerts \<open>a4\<close>, \<open>detect_all\<close> returns a
  sequence \<open>out\<close> that is the concatenation of the outputs of the four rules, called in
  the order new-origin, failed-login, unusual-time, rapid-logins (the second from the
  state the first leaves), reordered by severity rank: the ranks along \<open>out\<close> never
  decrease, the alerts of each rank are those of the concatenation in the same relative
  order, and \<open>out\<close> has exactly the alerts of the concatenation with their
  multiplicities. The ranks are 0 for \<open>high\<close>, 1 for \<open>medium\<close>, 2 for \<open>low\<close> and 3 for
  any other severity.
\<close>

theorem detect_all_sorted_stable:
  assumes "rule_rapid_multiple_logins parse logs 60 = Inr a4"
  shows "(\<exists>out. fst (detect_all parse st logs) = Inr out \<and>
           sorted (map (\<lambda>a. severity_order (a_severity a)) out) \<and>
           (\<forall>k. filter (\<lambda>a. severity_order (a_severity a) = k) out =
                filter (\<lambda>a. severity_order (a_severity a) = k)
                  (fst (rule_login_from_new_origin st logs) @
                   fst (rule_failed_login_threshold (snd (rule_login_from_new_origin st logs)) logs 5) @
                   rule_login_unusual_time parse logs (22, 6) @ a4)) \<and>
           mset out =
             mset (fst (rule_login_from_new_origin st logs) @
                   fst (rule_failed_login_threshold (snd (rule_login_from_new_origin st logs)) logs 5) @
                   rule_login_unusual_time parse logs (22, 6) @ a4))
       \<and> severity_order ''high'' = 0 \<and> severity_order ''medium'' = 1
       \<and> severity_order ''low'' = 2
       \<and> (\<forall>s. s \<noteq> ''high'' \<and> s \<noteq> ''medium'' \<and> s \<noteq> ''low'' \<longrightarrow> severity_order s = 3)"
proof -
  let ?all = "fst (rule_login_from_new_origin st logs) @
              fst (rule_failed_login_threshold (snd (rule_login_from_new_origin st logs)) logs 5) @
              rule_login_unusual_time parse logs (22, 6) @ a4"
  let ?key = "\<lambda>a. severity_order (a_severity a)"
  have out: "fst (detect_all parse st logs) = Inr (sort_key ?key ?all)"
    using assms by (simp add: detect_all_def case_prod_beta Let_def)
  have "sorted (map ?key (sort_key ?key ?all))" by (rule sorted_sort_key)
  moreover have "\<forall>k. filter (\<lambda>a. ?key a = k) (sort_key ?key ?all) = filter (\<lambda>a. ?key a = k) ?all"
    by (simp add: sort_key_stable)
  moreover have "mset (sort_key ?key ?all) = mset ?all" by simp
  ultimately have A: "\<exists>out. fst (detect_all parse st logs) = Inr out \<and>
           sorted (map ?key out) \<and>
           (\<forall>k. filter (\<lambda>a. ?key a = k) out = filter (\<lambda>a. ?key a = k) ?all) \<and>
           mset out = mset ?all"
    using out by blast
  have B: "severity_order ''high'' = 0 \<and> severity_order ''medium'' = 1 \<and>
         severity_order ''low'' = 2 \<and>
         (\<forall>s. s \<noteq> ''high'' \<and> s \<noteq> ''medium'' \<and> s \<noteq> ''low'' \<longrightarrow> severity_order s = 3)"
    by (simp add: severity_order_def)
  from A B show ?thesis by (intro conjI) simp_all
qed

theorem detect_all_sorted_stable_witness:
  "rule_rapid_multiple_logins fromisoformat eve_batch 60 = Inr [rapid_logins_alert ''eve'' 3 60] \<and>
   fst (detect_all fromisoformat fresh_state eve_batch) = Inr eve_alerts \<and>
   sorted (map (\<lambda>a. severity_order (a_severity a)) eve_alerts) \<and>
   filter (\<lambda>a. severity_order (a_severity a) = 1) eve_alerts =
     [new_origin_alert ''eve'' ''US'' eve1, new_origin_alert ''eve'' ''UK'' eve2,
      rapid_logins_alert ''eve'' 3 60]"
proof -
  from detect_all_sorted_stable [OF eve_rapid, of fresh_state]
  obtain out where o: "fst (detect_all fromisoformat fresh_state eve_batch) = Inr out"
    and s: "sorted (map (\<lambda>a. severity_order (a_severity a)) out)"
    by blast
  have e: "out = eve_alerts" using o eve_run by simp
  have f: "filter (\<lambda>a. severity_order (a_severity a) = 1) eve_alerts =
     [new_origin_alert ''eve'' ''US'' eve1, new_origin_alert ''eve'' ''UK'' eve2,
      rapid_logins_alert ''eve'' 3 60]"
    by (simp add: eve_alerts_def severity_order_def new_origin_alert_def rapid_logins_alert_def
        failed_login_alert_def unusual_time_alert_def)
  from eve_rapid eve_run s [unfolded e] f show ?thesis by (intro conjI)
qed



text \<open>
  C4. The rapid-logins rule does not emit its alert on every batch: eve's logins at
  \<open>T\<close>, \<open>T + 10 s\<close> and \<open>T + 200 s\<close> alone give the one alert, counting three logins in
  the window of 60 seconds; with carol's two logins in the same batch eve's timestamps
  still have the qualifying pair, but \<^verbatim>\<open>times.sort()\<close> on carol's raises
  \<^verbatim>\<open>TypeError\<close> and the rule, and with it the aggregator, returns no alert at all. On
  batches in which no user has both naive and aware timestamps the rule emits exactly
  one alert for each user with a qualifying pair (\<open>rapid_rule_per_user\<close>).
\<close>

theorem rapid_logins_alert_lost:
  "rule_rapid_multiple_logins fromisoformat eve_batch 60 =
     Inr [\<lparr>a_user = ''eve'', a_reason = ''rapid_logins'', a_severity = ''medium'',
           a_origin = None, a_failed_count = None, a_hour = None,
           a_logins_in_window = Some 3, a_window_seconds = Some 60, a_record = None\<rparr>] \<and>
   rapid_pair 60 (sort_key dt_micros (user_times fromisoformat ''eve'' eve_carol_batch)) \<and>
   rule_rapid_multiple_logins fromisoformat eve_carol_batch 60 = Inl TypeError \<and>
   fst (detect_all fromisoformat fresh_state eve_carol_batch) = Inl TypeError"
  by code_simp

text \<open>
  C5. For a login record \<open>r\<close> with a non-empty user \<open>u\<close> and a non-empty timestamp: when
  the parser accepts the timestamp (with \<^verbatim>\<open>Z\<close> replaced), the unusual-time rule
  gives for \<open>r\<close> exactly one alert, with user \<open>u\<close>, reason \<open>unusual_login_time\<close>,
  severity \<open>low\<close>, the hour of the parsed timestamp and the record \<open>r\<close>, if
  \<open>hour \<ge> start\<close> or \<open>hour < stop\<close>, and no alert otherwise; when the parser rejects
  the timestamp it gives no alert and raises nothing. What the rule gives for \<open>r\<close> is
  the same wherever \<open>r\<close> stands in a batch: the rule reads and keeps no state. With the
  default window \<open>(22, 6)\<close> the logins at 23h and at 3h fire and the login at 12h does
  not.
\<close>

theorem unusual_time_rule:
  assumes "log_type r = Some ''login''"
    and "log_user r = Some u" and "u \<noteq> []"
    and "log_timestamp r = Some s" and "s \<noteq> []"
  shows "(\<forall>ts. parse (replace_Z s) = Some ts \<longrightarrow>
            rule_login_unusual_time parse [r] (start, stop) =
              (if dt_hour ts \<ge> start \<or> dt_hour ts < stop
               then [\<lparr>a_user = u, a_reason = ''unusual_login_time'', a_severity = ''low'',
                      a_origin = None, a_failed_count = None, a_hour = Some (dt_hour ts),
                      a_logins_in_window = None, a_window_seconds = None,
                      a_record = Some r\<rparr>]
               else []))
       \<and> (parse (replace_Z s) = None \<longrightarrow>
            rule_login_unusual_time parse [r] (start, stop) = [])
       \<and> rule_login_unusual_time parse (xs @ r # ys) (start, stop) =
            rule_login_unusual_time parse xs (start, stop) @
            rule_login_unusual_time parse [r] (start, stop) @
            rule_login_unusual_time parse ys (start, stop)"
proof -
  have A: "\<forall>ts. parse (replace_Z s) = Some ts \<longrightarrow>
            rule_login_unusual_time parse [r] (start, stop) =
              (if dt_hour ts \<ge> start \<or> dt_hour ts < stop
               then [\<lparr>a_user = u, a_reason = ''unusual_login_time'', a_severity = ''low'',
                      a_origin = None, a_failed_count = None, a_hour = Some (dt_hour ts),
                      a_logins_in_window = None, a_window_seconds = None,
                      a_record = Some r\<rparr>]
               else [])"
    using assms by (simp add: unusual_time_alert_def Let_def)
  have B: "parse (replace_Z s) = None \<longrightarrow>
            rule_login_unusual_time parse [r] (start, stop) = []"
    using assms by simp
  have "rule_login_unusual_time parse (xs @ r # ys) (start, stop) =
          rule_login_unusual_time parse xs (start, stop) @
          rule_login_unusual_time parse ([r] @ ys) (start, stop)"
    by (simp only: unusual_time_append append_Cons append_Nil)
  then have C: "rule_login_unusual_time parse (xs @ r # ys) (start, stop) =
            rule_login_unusual_time parse xs (start, stop) @
            rule_login_unusual_time parse [r] (start, stop) @
            rule_login_unusual_time parse ys (start, stop)"
    by (simp only: unusual_time_append)
  from A B C show ?thesis by (intro conjI)
qed

theorem unusual_time_rule_witness:
  "log_type dave23 = Some ''login'' \<and> log_user dave23 = Some ''dave'' \<and> ''dave'' \<noteq> [] \<and>
   log_timestamp dave23 = Some ''2024-05-01T23:15:00Z'' \<and> ''2024-05-01T23:15:00Z'' \<noteq> [] \<and>
   rule_login_unusual_time fromisoformat [dave23] (22, 6) =
     [\<lparr>a_user = ''dave'', a_reason = ''unusual_login_time'', a_severity = ''low'',
       a_origin = None, a_failed_count = None, a_hour = Some 23,
       a_logins_in_window = None, a_window_seconds = None, a_record = Some dave23\<rparr>] \<and>
   rule_login_unusual_time fromisoformat [dave3] (22, 6) =
     [\<lparr>a_user = ''dave'', a_reason = ''unusual_login_time'', a_severity = ''low'',
       a_origin = None, a_failed_count = None, a_hour = Some 3,
       a_logins_in_window = None, a_window_seconds = None, a_record = Some dave3\<rparr>] \<and>
   rule_login_unusual_time fromisoformat [dave12] (22, 6) = [] \<and>
   rule_login_unusual_time fromisoformat [dave_bad] (22, 6) = [] \<and>
   rule_login_unusual_time fromisoformat [dave23, dave_bad, dave12, dave3] (22, 6) =
     rule_login_unusual_time fromisoformat [dave23] (22, 6) @
     rule_login_unusual_time fromisoformat [dave3] (22, 6)"
proof -
  have h23: "log_type dave23 = Some ''login''" "log_user dave23 = Some ''dave''" "''dave'' \<noteq> []"
      "log_timestamp dave23 = Some ''2024-05-01T23:15:00Z''" "''2024-05-01T23:15:00Z'' \<noteq> []"
    by (simp_all add: dave23_def login_def)
  have h3: "log_type dave3 = Some ''login''" "log_user dave3 = Some ''dave''"
      "log_timestamp dave3 = Some ''2024-05-02T03:30:00Z''" "''2024-05-02T03:30:00Z'' \<noteq> []"
    by (simp_all add: dave3_def login_def)
  have h12: "log_type dave12 = Some ''login''" "log_user dave12 = Some ''dave''"
      "log_timestamp dave12 = Some ''2024-05-02T12:00:00Z''" "''2024-05-02T12:00:00Z'' \<noteq> []"
    by (simp_all add: dave12_def login_def)
  have hb: "log_type dave_bad = Some ''login''" "log_user dave_bad = Some ''dave''"
      "log_timestamp dave_bad = Some ''yesterday''" "''yesterday'' \<noteq> []"
    by (simp_all add: dave_bad_def login_def)
  note t23 = unusual_time_rule [OF h23, of fromisoformat 22 6]
  note t3 = unusual_time_rule [OF h3(1,2) h23(3) h3(3,4), of fromisoformat 22 6]
  note t12 = unusual_time_rule [OF h12(1,2) h23(3) h12(3,4), of fromisoformat 22 6]
  note tb = unusual_time_rule [OF hb(1,2) h23(3) hb(3,4), of fromisoformat 22 6]
  have r23: "rule_login_unusual_time fromisoformat [dave23] (22, 6) =
     [\<lparr>a_user = ''dave'', a_reason = ''unusual_login_time'', a_severity = ''low'',
       a_origin = None, a_failed_count = None, a_hour = Some 23,
       a_logins_in_window = None, a_window_seconds = None, a_record = Some dave23\<rparr>]"
    using t23 dave23_time by simp
  have r3: "rule_login_unusual_time fromisoformat [dave3] (22, 6) =
     [\<lparr>a_user = ''dave'', a_reason = ''unusual_login_time'', a_severity = ''low'',
       a_origin = None, a_failed_count = None, a_hour = Some 3,
       a_logins_in_window = None, a_window_seconds = None, a_record = Some dave3\<rparr>]"
    using t3 dave3_time by simp
  have r12: "rule_login_unusual_time fromisoformat [dave12] (22, 6) = []"
    using t12 dave12_time by simp
  have rb: "rule_login_unusual_time fromisoformat [dave_bad] (22, 6) = []"
    using tb dave_bad_time by simp
  have "rule_login_unusual_time fromisoformat ([dave23, dave_bad, dave12] @ dave3 # []) (22, 6) =
      rule_login_unusual_time fromisoformat [dave23, dave_bad, dave12] (22, 6) @
      rule_login_unusual_time fromisoformat [dave3] (22, 6) @
      rule_login_unusual_time fromisoformat [] (22, 6)"
    using t3 by blast
  moreover have "rule_login_unusual_time fromisoformat ([dave23, dave_bad] @ dave12 # []) (22, 6) =
      rule_login_unusual_time fromisoformat [dave23, dave_bad] (22, 6) @
      rule_login_unusual_time fromisoformat [dave12] (22, 6) @
      rule_login_unusual_time fromisoformat [] (22, 6)"
    using t12 by blast
  moreover have "rule_login_unusual_time fromisoformat ([dave23] @ dave_bad # []) (22, 6) =
      rule_login_unusual_time fromisoformat [dave23] (22, 6) @
      rule_login_unusual_time fromisoformat [dave_bad] (22, 6) @
      rule_login_unusual_time fromisoformat [] (22, 6)"
    using tb by blast
  ultimately have all: "rule_login_unusual_time fromisoformat [dave23, dave_bad, dave12, dave3] (22, 6) =
     rule_login_unusual_time fromisoformat [dave23] (22, 6) @
     rule_login_unusual_time fromisoformat [dave3] (22, 6)"
    using r12 rb by (simp del: rule_login_unusual_time.simps(2))
  from h23 r23 r3 r12 rb all show ?thesis by (intro conjI)
qed

text \<open>
  C6. The alert of the rapid-logins rule carries no record: in the run of eve and
  bob the aggregator returns a \<open>rapid_logins\<close> alert whose \<open>record\<close> is \<^verbatim>\<open>None\<close>,
  where the alerts of the three other rules carry the record that triggered them.
\<close>

theorem rapid_logins_record_none:
  "rule_rapid_multiple_logins fromisoformat eve_batch 60 = Inr [rapid_logins_alert ''eve'' 3 60] \<and>
   a_reason (rapid_logins_alert ''eve'' 3 60) = ''rapid_logins'' \<and>
   a_record (rapid_logins_alert ''eve'' 3 60) = None \<and>
   rapid_logins_alert ''eve'' 3 60 \<in> set eve_alerts \<and>
   fst (detect_all fromisoformat fresh_state eve_batch) = Inr eve_alerts"
  by code_simp

text \<open>
  C7. The aggregator is not total: two login records of one user with well-formed
  timestamps, one without and one with a zone suffix, make \<^verbatim>\<open>times.sort()\<close> of the
  rapid-logins rule raise \<^verbatim>\<open>TypeError\<close>, which leaves \<open>detect_all\<close>; the alerts of
  the call are lost, while the origin the first rule marked seen stays marked.
\<close>

theorem detect_all_raises:
  "fst (detect_all fromisoformat fresh_state carol_batch) = Inl TypeError \<and>
   seen_origins (snd (detect_all fromisoformat fresh_state carol_batch)) ''carol'' = {''US''}"
  by code_simp

text \<open>
  C8. Every alert that \<open>detect_all\<close> returns, for every batch and detection state,
  has one of the four reasons, and its severity is the one that goes with the reason:
  \<open>new_origin\<close> with \<open>medium\<close>, \<open>failed_login_threshold\<close> with \<open>high\<close>,
  \<open>unusual_login_time\<close> with \<open>low\<close>, \<open>rapid_logins\<close> with \<open>medium\<close>.
\<close>

theorem detect_all_reason_severity:
  assumes "fst (detect_all parse st logs) = Inr out" and "a \<in> set out"
  shows "(a_reason a, a_severity a) \<in>
           {(''new_origin'', ''medium''), (''failed_login_threshold'', ''high''),
            (''unusual_login_time'', ''low''), (''rapid_logins'', ''medium'')}"
proof -
  from assms(1) obtain a4 where
    r4: "rule_rapid_multiple_logins parse logs 60 = Inr a4" and
    out: "out = sort_key (\<lambda>x. severity_order (a_severity x))
           (fst (rule_login_from_new_origin st logs) @
            fst (rule_failed_login_threshold (snd (rule_login_from_new_origin st logs)) logs 5) @
            rule_login_unusual_time parse logs (22, 6) @ a4)"
    by (rule detect_all_Inr)
  from assms(2) out consider
      "a \<in> set (fst (rule_login_from_new_origin st logs))"
    | "a \<in> set (fst (rule_failed_login_threshold (snd (rule_login_from_new_origin st logs)) logs 5))"
    | "a \<in> set (rule_login_unusual_time parse logs (22, 6))"
    | "a \<in> set a4"
    by auto
  then show ?thesis
  proof cases
    case 1
    then show ?thesis using new_origin_rule_kinds by simp
  next
    case 2
    then show ?thesis using failed_rule_kinds by simp
  next
    case 3
    then show ?thesis using unusual_time_kinds by simp
  next
    case 4
    then show ?thesis
      using rapid_users_kinds [OF r4 [unfolded rule_rapid_multiple_logins_def]] by simp
  qed
qed

theorem detect_all_reason_severity_witness:
  "fst (detect_all fromisoformat fresh_state eve_batch) = Inr eve_alerts \<and>
   rapid_logins_alert ''eve'' 3 60 \<in> set eve_alerts \<and>
   (a_reason (rapid_logins_alert ''eve'' 3 60), a_severity (rapid_logins_alert ''eve'' 3 60)) \<in>
     {(''new_origin'', ''medium''), (''failed_login_threshold'', ''high''),
      (''unusual_login_time'', ''low''), (''rapid_logins'', ''medium'')}"
proof -
  have m: "rapid_logins_alert ''eve'' 3 60 \<in> set eve_alerts"
    by (simp add: eve_alerts_def)
  from eve_run m detect_all_reason_severity [OF eve_run m] show ?thesis by (intro conjI)
qed

text \<open>
  C9. Whatever \<open>detect_all\<close> returns or raises, the state it leaves has grown: for
  every user the seen origins are those before together with the non-empty origins of
  the batch's login records for that (non-empty) user, so a superset of those before,
  and the failed-login counter is the counter before plus one for each failed-login
  record of the batch bearing that (non-empty) user, so at least the counter before.
\<close>

theorem detect_all_state_monotone:
  "seen_origins (snd (detect_all parse st logs)) u =
     seen_origins st u \<union> {orig. u \<noteq> [] \<and> orig \<noteq> [] \<and> (\<exists>r \<in> set logs. login_from u orig r)}
   \<and> seen_origins st u \<subseteq> seen_origins (snd (detect_all parse st logs)) u
   \<and> failed_logins (snd (detect_all parse st logs)) u =
       failed_logins st u + (if u = [] then 0 else int (length (failed_logins_of u logs)))
   \<and> failed_logins st u \<le> failed_logins (snd (detect_all parse st logs)) u"
  by (simp add: snd_detect_all failed_rule_state new_origin_rule_state)

theorem detect_all_state_monotone_witness:
  "seen_origins (snd (detect_all fromisoformat fresh_state eve_batch)) ''eve'' = {''US'', ''UK''} \<and>
   failed_logins (snd (detect_all fromisoformat fresh_state eve_batch)) ''bob'' = 5"
proof -
  have s: "{orig. ''eve'' \<noteq> [] \<and> orig \<noteq> [] \<and> (\<exists>r \<in> set eve_batch. login_from ''eve'' orig r)}
      = {''US'', ''UK''}"
    by (auto simp: eve_batch_def eve1_def eve2_def eve3_def bob_failed_def login_def login_from_def)
  have n: "int (length (failed_logins_of ''bob'' eve_batch)) = 5"
    by (simp add: eve_batch_def eve1_def eve2_def eve3_def bob_failed_def login_def
        failed_logins_of_def)
  show ?thesis
    using detect_all_state_monotone [of fromisoformat fresh_state eve_batch "''eve''"]
      detect_all_state_monotone [of fromisoformat fresh_state eve_batch "''bob''"]
    unfolding s n by (simp add: fresh_state_def)
qed

end
